theory Spec2Isabelle
  imports Main "HOL-Library.Word" "HOL-Library.Signed_Division"
begin

unbundle bit_operations_syntax

section \<open>Go values\<close>

text \<open>
  Go's \<open>int\<close> is a 64-bit two's complement integer on the 64-bit platforms: arithmetic
  wraps around, comparison is signed. A \<open>string\<close> is a sequence of bytes. An \<open>error\<close>
  is either \<open>nil\<close> (\<open>None\<close>) or a value made by \<open>errors.New\<close>. A run-time panic is a
  value of its own, returned on the left of a sum.
\<close>

type_synonym int64 = "64 word"

datatype error = New string

datatype panic = IntegerDivideByZero | Panic string

text \<open>
  The operators \<open>/\<close> and \<open>%\<close> on integers truncate towards zero; the quotient of the
  most negative value by \<open>-1\<close> wraps around to the most negative value. The divisor is
  checked by the caller: Go panics on zero before either operator computes anything.
\<close>

definition quo :: "int64 \<Rightarrow> int64 \<Rightarrow> int64" where
  "quo x y = word_of_int (sint x sdiv sint y)"

definition rem :: "int64 \<Rightarrow> int64 \<Rightarrow> int64" where
  "rem x y = word_of_int (sint x smod sint y)"

text \<open>
  A \<open>float64\<close> is kept as its IEEE-754 bit pattern. The comparison \<open>b == 0\<close> holds for
  the two zeros, \<open>+0\<close> (all bits clear) and \<open>-0\<close> (only the sign bit set), and for no
  other pattern; the literal \<open>0\<close> is \<open>+0\<close>. Floating-point division is the hardware's
  and is a parameter of \<open>safeDivide\<close>.
\<close>

type_synonym float64 = "64 word"

definition float64_eq_zero :: "float64 \<Rightarrow> bool" where
  "float64_eq_zero b = (b = 0 \<or> b = 0x8000000000000000)"

subsection \<open>strings.Contains\<close>

fun HasPrefix :: "string \<Rightarrow> string \<Rightarrow> bool" where
  "HasPrefix s [] = True"
| "HasPrefix [] (p # ps) = False"
| "HasPrefix (c # s) (p # ps) = (c = p \<and> HasPrefix s ps)"

fun Contains :: "string \<Rightarrow> string \<Rightarrow> bool" where
  "Contains [] substr = (substr = [])"
| "Contains (c # s) substr = (HasPrefix (c # s) substr \<or> Contains s substr)"

section \<open>functions/functions.go\<close>

text \<open>
  \<^verbatim>\<open>
  func divide(dividend, divisor int) (int, int) {
      quotient := dividend / divisor
      remainder := dividend % divisor
      return quotient, remainder
  }
  \<close>
\<close>

definition divide :: "int64 \<Rightarrow> int64 \<Rightarrow> panic + int64 \<times> int64" where
  "divide dividend divisor =
     (if divisor = 0 then Inl IntegerDivideByZero
      else let quotient = quo dividend divisor;
               remainder = rem dividend divisor
           in Inr (quotient, remainder))"

text \<open>
  \<^verbatim>\<open>
  func safeDivide(a, b float64) (float64, error) {
      if b == 0 {
          return 0, errors.New("division by zero")
      }
      return a / b, nil
  }
  \<close>
\<close>

definition safeDivide ::
  "(float64 \<Rightarrow> float64 \<Rightarrow> float64) \<Rightarrow> float64 \<Rightarrow> float64 \<Rightarrow> float64 \<times> error option" where
  "safeDivide fdiv a b =
     (if float64_eq_zero b then (0, Some (New ''division by zero''))
      else (fdiv a b, None))"

text \<open>
  \<^verbatim>\<open>
  func validateEmail(email string) error {
      if !strings.Contains(email, "@") {
          return errors.New("email must contain @ symbol")
      }
      if !strings.Contains(email, ".") {
          return errors.New("email must contain domain extension")
      }
      return nil
  }
  \<close>
\<close>

definition validateEmail :: "string \<Rightarrow> error option" where
  "validateEmail email =
     (if \<not> Contains email ''@'' then Some (New ''email must contain @ symbol'')
      else if \<not> Contains email ''.'' then Some (New ''email must contain domain extension'')
      else None)"

section \<open>concurrency/goroutines_channels.go\<close>

text \<open>
  \<^verbatim>\<open>
  func fibonacci(n int) int {
      if n <= 1 {
          return n
      }
      return fibonacci(n-1) + fibonacci(n-2)
  }
  \<close>
  The recursion ends because \<open>n\<close>, read as a signed number, is above 1 at every
  recursive call, so that \<open>n - 1\<close> and \<open>n - 2\<close> do not wrap around and are smaller.
\<close>

function fibonacci :: "int64 \<Rightarrow> int64" where
  "fibonacci n = (if n \<le>s 1 then n else fibonacci (n - 1) + fibonacci (n - 2))"
  by pat_completeness auto
termination
proof (relation "measure (\<lambda>n. nat (sint n))")
  fix n :: int64
  assume "\<not> n \<le>s 1"
  then have gt: "1 < sint n"
    by (simp add: word_sle_eq)
  have lt: "sint n < 2 ^ 63"
    using sint_lt [of n] by simp
  from gt lt have "sint (n - 1) = sint n - 1" and "sint (n - 2) = sint n - 2"
    by (simp_all add: sint_word_diff signed_take_bit_int_eq_self)
  with gt show "(n - 1, n) \<in> measure (\<lambda>n. nat (sint n))"
    and "(n - 2, n) \<in> measure (\<lambda>n. nat (sint n))"
    by simp_all
qed simp

declare fibonacci.simps [simp del]

text \<open>
  \<^verbatim>\<open>
  func poolWorker(id int, jobs <-chan int, results chan<- int) {
      for job := range jobs {
          fmt.Printf("  Worker %d: Processing job %d\n", id, job)
          time.Sleep(...)
          result := fibonacci(job)
          results <- result
          fmt.Printf("  Worker %d: Job %d completed (result: %d)\n", id, job, result)
      }
  }
  \<close>
  The worker is a function of the jobs it receives from the \<open>jobs\<close> channel until the
  channel is closed, in the order it receives them; what it does is the list of its
  effects: lines printed and values sent on \<open>results\<close>. The sleep has no effect on
  either.
\<close>

datatype worker_effect =
  PrintProcessing int64 int64
| SendResult int64
| PrintCompleted int64 int64 int64

fun poolWorker :: "int64 \<Rightarrow> int64 list \<Rightarrow> worker_effect list" where
  "poolWorker worker_id [] = []"
| "poolWorker worker_id (job # jobs) =
     (let result = fibonacci job
      in [PrintProcessing worker_id job, SendResult result, PrintCompleted worker_id job result]
         @ poolWorker worker_id jobs)"

fun sent :: "worker_effect list \<Rightarrow> int64 list" where
  "sent [] = []"
| "sent (SendResult v # es) = v # sent es"
| "sent (_ # es) = sent es"

section \<open>backend/http_server.go\<close>

text \<open>
  \<^verbatim>\<open>
  mux := http.NewServeMux()
  mux.HandleFunc("/", homeHandler)
  mux.HandleFunc("/api/health", healthHandler)
  mux.HandleFunc("/api/users", usersHandler)
  mux.HandleFunc("/api/users/", userByIDHandler)
  \<close>
  A \<open>ServeMux\<close> is the list of its registrations, in order. \<open>HandleFunc\<close> panics on
  an empty pattern and on a pattern that is registered already.
\<close>

datatype handler = homeHandler | healthHandler | usersHandler | userByIDHandler

type_synonym ServeMux = "(string \<times> handler) list"

definition NewServeMux :: ServeMux where
  "NewServeMux = []"

definition HandleFunc :: "string \<Rightarrow> handler \<Rightarrow> ServeMux \<Rightarrow> panic + ServeMux" where
  "HandleFunc pattern h mux =
     (if pattern = [] then Inl (Panic ''http: invalid pattern'')
      else if pattern \<in> set (map fst mux) then Inl (Panic ''http: multiple registrations'')
      else Inr (mux @ [(pattern, h)]))"

definition and_then :: "panic + 'a \<Rightarrow> ('a \<Rightarrow> panic + 'b) \<Rightarrow> panic + 'b" where
  "and_then r f = (case r of Inl p \<Rightarrow> Inl p | Inr v \<Rightarrow> f v)"

definition HTTPServerExamples_mux :: "panic + ServeMux" where
  "HTTPServerExamples_mux =
     and_then (and_then (and_then (HandleFunc ''/'' homeHandler NewServeMux)
       (HandleFunc ''/api/health'' healthHandler))
       (HandleFunc ''/api/users'' usersHandler))
       (HandleFunc ''/api/users/'' userByIDHandler)"

definition routes :: "panic + ServeMux \<Rightarrow> string set" where
  "routes r = (case r of Inl p \<Rightarrow> {} | Inr mux \<Rightarrow> set (map fst mux))"

text \<open>
  \<^verbatim>\<open>
  func rateLimitMiddleware(next http.Handler) http.Handler {
      requests := make(map[string][]time.Time)
      return http.HandlerFunc(func(w http.ResponseWriter, r *http.Request) {
          clientIP := r.RemoteAddr
          now := time.Now()
          if reqTimes, exists := requests[clientIP]; exists {
              var validRequests []time.Time
              for _, reqTime := range reqTimes {
                  if now.Sub(reqTime) <= time.Minute {
                      validRequests = append(validRequests, reqTime)
                  }
              }
              requests[clientIP] = validRequests
          }
          if len(requests[clientIP]) >= 10 {
              http.Error(w, "Rate limit exceeded", http.StatusTooManyRequests)
              return
          }
          requests[clientIP] = append(requests[clientIP], now)
          next.ServeHTTP(w, r)
      })
  }
  \<close>
  A \<open>time.Time\<close> taken by \<open>time.Now()\<close> is its reading of the monotonic clock, in
  nanoseconds; \<open>t.Sub(u)\<close> is the difference \<open>t - u\<close> as a \<open>Duration\<close>, a 64-bit count
  of nanoseconds, and is the largest (smallest) duration when the difference is above
  (below) the range. The map \<open>requests\<close> is the state of the handler; reading a key
  that is absent gives the empty slice. The handler is modelled one request at a time:
  it takes the map, the address of the client and the time of the request, and returns
  the map as the request leaves it together with what was done with the request.
\<close>

type_synonym Time = int

type_synonym Duration = int

definition Minute :: Duration where
  "Minute = 60000000000"

definition Sub :: "Time \<Rightarrow> Time \<Rightarrow> Duration" where
  "Sub t u = max (- (2 ^ 63)) (min (2 ^ 63 - 1) (t - u))"



definition index :: "(string \<rightharpoonup> Time list) \<Rightarrow> string \<Rightarrow> Time list" where
  "index requests clientIP = (case requests clientIP of None \<Rightarrow> [] | Some reqTimes \<Rightarrow> reqTimes)"




section \<open>main.go\<close>

text \<open>
  The console is the program's standard input and output. Standard input is the list
  of what the successive reads up to a newline return, the line with its newline, and
  a read at the end of input returns the empty string (its error is dropped by the
  source). Standard output is the list of what was printed, one entry for each block
  of lines; the text a learning module prints is one entry, \<open>Module\<close>.
  \<open>strings.TrimSpace\<close> is a parameter of the functions that read.
\<close>

datatype module =
  runBasicSyntax | runControlStructures | runFunctions | runStructsInterfaces
| runBackendConcepts | runConcurrency | runAllExamples

datatype printed =
  Welcome | Menu | Prompt string | Goodbye | BlankLine | InvalidChoice
| Module module | PressEnter

record console =
  stdin :: "string list"
  stdout :: "printed list"

definition Println :: "printed \<Rightarrow> console \<Rightarrow> console" where
  "Println x c = c\<lparr>stdout := stdout c @ [x]\<rparr>"

definition ReadString :: "console \<Rightarrow> string \<times> console" where
  "ReadString c =
     (case stdin c of [] \<Rightarrow> ([], c) | input # rest \<Rightarrow> (input, c\<lparr>stdin := rest\<rparr>))"

text \<open>
  \<^verbatim>\<open>
  func getUserInput(prompt string) string {
      fmt.Print(prompt)
      reader := bufio.NewReader(os.Stdin)
      input, _ := reader.ReadString('\n')
      return strings.TrimSpace(input)
  }
  \<close>
\<close>

definition getUserInput ::
  "(string \<Rightarrow> string) \<Rightarrow> string \<Rightarrow> console \<Rightarrow> string \<times> console" where
  "getUserInput TrimSpace prompt c =
     (let (input, c') = ReadString (Println (Prompt prompt) c)
      in (TrimSpace input, c'))"

text \<open>
  The modules print their sections and return; \<open>runBackendConcepts\<close>, \<open>runConcurrency\<close>
  and \<open>runAllExamples\<close> each ask one question through \<open>getUserInput\<close> on the way.
\<close>

fun run :: "(string \<Rightarrow> string) \<Rightarrow> module \<Rightarrow> console \<Rightarrow> console" where
  "run TrimSpace runBackendConcepts c =
     snd (getUserInput TrimSpace ''Start a real HTTP server? (y/n): ''
            (Println (Module runBackendConcepts) c))"
| "run TrimSpace runConcurrency c =
     snd (getUserInput TrimSpace ''Which examples would you like to see? (1-9): ''
            (Println (Module runConcurrency) c))"
| "run TrimSpace runAllExamples c =
     snd (getUserInput TrimSpace ''Continue with full demonstration? (y/n): ''
            (Println (Module runAllExamples) c))"
| "run TrimSpace m c = Println (Module m) c"

text \<open>
  \<^verbatim>\<open>
  func executeChoice(choice string) {
      fmt.Println()
      switch choice {
      case "1": runBasicSyntax()
      case "2": runControlStructures()
      case "3": runFunctions()
      case "4": runStructsInterfaces()
      case "5": runBackendConcepts()
      case "6": runConcurrency()
      case "7": runAllExamples()
      default:
          fmt.Println("Invalid choice. Please select a number from 0-7.")
      }
  }
  \<close>
\<close>

definition executeChoice :: "(string \<Rightarrow> string) \<Rightarrow> string \<Rightarrow> console \<Rightarrow> console" where
  "executeChoice TrimSpace choice c =
     (let c' = Println BlankLine c
      in if choice = ''1'' then run TrimSpace runBasicSyntax c'
         else if choice = ''2'' then run TrimSpace runControlStructures c'
         else if choice = ''3'' then run TrimSpace runFunctions c'
         else if choice = ''4'' then run TrimSpace runStructsInterfaces c'
         else if choice = ''5'' then run TrimSpace runBackendConcepts c'
         else if choice = ''6'' then run TrimSpace runConcurrency c'
         else if choice = ''7'' then run TrimSpace runAllExamples c'
         else Println InvalidChoice c')"

text \<open>
  \<^verbatim>\<open>
  func main() {
      displayWelcome()
      for {
          displayMenu()
          choice := getUserInput("Enter your choice (1-7, or 0 to exit): ")
          if choice == "0" {
              fmt.Println("Thank you for learning Go! Happy coding!")
              break
          }
          executeChoice(choice)
          fmt.Println("\nPress Enter to continue...")
          bufio.NewReader(os.Stdin).ReadBytes('\n')
      }
  }
  \<close>
  One iteration of the loop is \<open>iteration\<close>: it returns the console and whether the
  loop was left by \<open>break\<close>. The loop may run forever (at the end of input every read
  returns the empty string, which is not \<open>"0"\<close>), so \<open>menu_loop\<close> runs at most a given
  number of iterations and says whether the loop was left within them.
\<close>

definition iteration :: "(string \<Rightarrow> string) \<Rightarrow> console \<Rightarrow> console \<times> bool" where
  "iteration TrimSpace c =
     (let (choice, c1) =
            getUserInput TrimSpace ''Enter your choice (1-7, or 0 to exit): '' (Println Menu c)
      in if choice = ''0'' then (Println Goodbye c1, True)
         else let c2 = executeChoice TrimSpace choice c1;
                  c3 = Println PressEnter c2;
                  (_, c4) = ReadString c3
              in (c4, False))"

fun menu_loop :: "(string \<Rightarrow> string) \<Rightarrow> nat \<Rightarrow> console \<Rightarrow> console \<times> bool" where
  "menu_loop TrimSpace 0 c = (c, False)"
| "menu_loop TrimSpace (Suc n) c =
     (let (c', left) = iteration TrimSpace c
      in if left then (c', True) else menu_loop TrimSpace n c')"

definition main :: "(string \<Rightarrow> string) \<Rightarrow> nat \<Rightarrow> console \<Rightarrow> console \<times> bool" where
  "main TrimSpace n c = menu_loop TrimSpace n (Println Welcome c)"

text \<open>The modules run, in order, among what was printed.\<close>

fun modules_run :: "printed list \<Rightarrow> module list" where
  "modules_run [] = []"
| "modules_run (Module m # xs) = m # modules_run xs"
| "modules_run (_ # xs) = modules_run xs"

section \<open>select/main.go: the counter behind a mutex\<close>

text \<open>
  \<^verbatim>\<open>
  var counter int
  var mu sync.Mutex

  func increment() {
      for i := 0; i < 1000; i++ {
          mu.Lock()
          counter++
          mu.Unlock()
      }
  }
  func main() {
      for i := 0; i < 5; i++ {
          go increment()
      }
      time.Sleep(time.Second)
      fmt.Println("Final Counter:", counter)
  }
  \<close>
  The program is a transition system. Its state is the two package variables, the
  goroutines started so far, each with its place in \<open>increment\<close>, its loop variable and
  the register that \<open>counter++\<close> loads the counter into, and the place and loop variable
  of \<open>main\<close> with what it has printed. A run is an interleaving of the steps of the
  threads, one statement at a time, with \<open>counter++\<close> in two steps, the load and the
  store. \<open>mu.Lock()\<close> has no step while the mutex is locked; unlocking an unlocked mutex
  is a fatal error and has no step either; \<open>time.Sleep\<close> returns in one step, whatever
  the other goroutines have done by then; after \<open>main\<close> returns no goroutine runs.
\<close>

datatype label = ForTest | MuLock | CounterLoad | CounterStore | MuUnlock | ForNext | Return

record goroutine =
  pc :: label
  loop_i :: int64
  reg :: int64

datatype main_label = ForGo | Sleep | PrintCounter | Exit

record program =
  counter :: int64
  mu :: bool
  goroutines :: "goroutine list"
  main_pc :: main_label
  main_i :: int64
  final_counter :: "int64 list"

datatype thread = MainThread | Goroutine nat

definition increment :: "nat \<Rightarrow> program \<Rightarrow> program option" where
  "increment k s =
     (if length (goroutines s) \<le> k then None
      else let g = goroutines s ! k in
        case pc g of
          ForTest \<Rightarrow>
            Some (s\<lparr>goroutines :=
              (goroutines s)[k := g\<lparr>pc := (if loop_i g <s 1000 then MuLock else Return)\<rparr>]\<rparr>)
        | MuLock \<Rightarrow>
            if mu s then None
            else Some (s\<lparr>mu := True, goroutines := (goroutines s)[k := g\<lparr>pc := CounterLoad\<rparr>]\<rparr>)
        | CounterLoad \<Rightarrow>
            Some (s\<lparr>goroutines := (goroutines s)[k := g\<lparr>reg := counter s, pc := CounterStore\<rparr>]\<rparr>)
        | CounterStore \<Rightarrow>
            Some (s\<lparr>counter := reg g + 1, goroutines := (goroutines s)[k := g\<lparr>pc := MuUnlock\<rparr>]\<rparr>)
        | MuUnlock \<Rightarrow>
            if mu s
            then Some (s\<lparr>mu := False, goroutines := (goroutines s)[k := g\<lparr>pc := ForNext\<rparr>]\<rparr>)
            else None
        | ForNext \<Rightarrow>
            Some (s\<lparr>goroutines := (goroutines s)[k := g\<lparr>loop_i := loop_i g + 1, pc := ForTest\<rparr>]\<rparr>)
        | Return \<Rightarrow> None)"

definition main_step :: "program \<Rightarrow> program option" where
  "main_step s =
     (case main_pc s of
        ForGo \<Rightarrow>
          if main_i s <s 5
          then Some (s\<lparr>goroutines := goroutines s @ [\<lparr>pc = ForTest, loop_i = 0, reg = 0\<rparr>],
                        main_i := main_i s + 1\<rparr>)
          else Some (s\<lparr>main_pc := Sleep\<rparr>)
      | Sleep \<Rightarrow> Some (s\<lparr>main_pc := PrintCounter\<rparr>)
      | PrintCounter \<Rightarrow>
          Some (s\<lparr>final_counter := final_counter s @ [counter s], main_pc := Exit\<rparr>)
      | Exit \<Rightarrow> None)"

definition step :: "thread \<Rightarrow> program \<Rightarrow> program option" where
  "step t s =
     (if main_pc s = Exit then None
      else case t of MainThread \<Rightarrow> main_step s | Goroutine k \<Rightarrow> increment k s)"

text \<open>
  A schedule is the list of the threads that take the successive steps; it has a run
  when each thread has a step at its turn.
\<close>

fun interleave :: "thread list \<Rightarrow> program \<Rightarrow> program option" where
  "interleave [] s = Some s"
| "interleave (t # ts) s =
     (case step t s of None \<Rightarrow> None | Some s' \<Rightarrow> interleave ts s')"

definition initial :: program where
  "initial = \<lparr>counter = 0, mu = False, goroutines = [], main_pc = ForGo, main_i = 0,
              final_counter = []\<rparr>"

text \<open>
  The number of times a goroutine has completed \<open>counter++\<close>: once in each iteration it
  has finished, and once more when it is past the store of its current iteration.
\<close>

definition increments :: "goroutine \<Rightarrow> nat" where
  "increments g = unat (loop_i g) + (if pc g = MuUnlock \<or> pc g = ForNext then 1 else 0)"

text \<open>
  The schedule that lets \<open>main\<close> start the five goroutines and go to sleep, runs the
  goroutines to their end one after the other (six steps for each of the 1000
  iterations and the last test of the loop), and wakes \<open>main\<close> up.
\<close>

definition sequential :: "thread list" where
  "sequential =
     replicate 6 MainThread
     @ concat (map (\<lambda>k. replicate 6001 (Goroutine k)) [0, 1, 2, 3, 4])
     @ [MainThread]"

text \<open>What holds of every state of every run.\<close>

definition in_critical :: "goroutine \<Rightarrow> bool" where
  "in_critical g \<longleftrightarrow> pc g = CounterLoad \<or> pc g = CounterStore \<or> pc g = MuUnlock"

definition goroutine_ok :: "int64 \<Rightarrow> goroutine \<Rightarrow> bool" where
  "goroutine_ok c g \<longleftrightarrow>
     unat (loop_i g) \<le> 1000
     \<and> (pc g \<noteq> ForTest \<and> pc g \<noteq> Return \<longrightarrow> unat (loop_i g) < 1000)
     \<and> (pc g = Return \<longrightarrow> unat (loop_i g) = 1000)
     \<and> (pc g = CounterStore \<longrightarrow> reg g = c)"

definition invariant :: "program \<Rightarrow> bool" where
  "invariant s \<longleftrightarrow>
     counter s = of_nat (sum_list (map increments (goroutines s)))
     \<and> (\<forall>j < length (goroutines s). goroutine_ok (counter s) (goroutines s ! j))
     \<and> (\<forall>j < length (goroutines s). \<forall>j' < length (goroutines s).
           in_critical (goroutines s ! j) \<and> in_critical (goroutines s ! j') \<longrightarrow> j = j')
     \<and> (mu s \<longleftrightarrow> (\<exists>j < length (goroutines s). in_critical (goroutines s ! j)))
     \<and> length (goroutines s) = unat (main_i s)
     \<and> unat (main_i s) \<le> 5
     \<and> (main_pc s \<noteq> ForGo \<longrightarrow> unat (main_i s) = 5)"

text \<open>The state in which the schedule \<open>sequential\<close> ends.\<close>

definition sequential_end :: program where
  "sequential_end =
     \<lparr>counter = 5000, mu = False,
      goroutines =
        [\<lparr>pc = Return, loop_i = 1000, reg = 999\<rparr>,
         \<lparr>pc = Return, loop_i = 1000, reg = 1999\<rparr>,
         \<lparr>pc = Return, loop_i = 1000, reg = 2999\<rparr>,
         \<lparr>pc = Return, loop_i = 1000, reg = 3999\<rparr>,
         \<lparr>pc = Return, loop_i = 1000, reg = 4999\<rparr>],
      main_pc = PrintCounter, main_i = 5, final_counter = []\<rparr>"

section \<open>Properties of functions.go\<close>

lemma Contains_single: "Contains s [c] \<longleftrightarrow> c \<in> set s"
  by (induction s) auto

text \<open>
  C1. \<open>divide(17, 5)\<close> returns the pair \<open>(3, 2)\<close>: quotient 3 and remainder 2.
\<close>

theorem divide_17_5: "divide 17 5 = Inr (3, 2)"
  by (simp add: divide_def quo_def rem_def signed_modulo_int_def)

text \<open>
  C2. \<open>validateEmail("invalid-email")\<close> returns an error that is not \<open>nil\<close>, and
  \<open>validateEmail("user@example.com")\<close> returns \<open>nil\<close>.
\<close>

theorem validateEmail_examples:
  "validateEmail ''invalid-email'' \<noteq> None \<and> validateEmail ''user@example.com'' = None"
  by (simp add: validateEmail_def Contains_single)

text \<open>
  C9. For every string \<open>e\<close>, \<open>validateEmail(e)\<close> returns \<open>nil\<close> if and only if \<open>e\<close>
  contains the character \<open>@\<close> and the character \<open>.\<close>; nothing else is checked, so the
  address \<open>@.\<close> is accepted.
\<close>

theorem validateEmail_nil_iff:
  "(validateEmail e = None \<longleftrightarrow> CHR ''@'' \<in> set e \<and> CHR ''.'' \<in> set e)
   \<and> validateEmail ''@.'' = None"
  by (simp add: validateEmail_def Contains_single)

text \<open>
  C6. \<open>safeDivide(a, b)\<close> returns an error that is not \<open>nil\<close> if and only if \<open>b\<close>
  equals zero (the comparison \<open>b == 0\<close> of the source, true of both zeros of
  \<open>float64\<close>); in that case the value returned is 0; for every other \<open>b\<close> the error is
  \<open>nil\<close>. This holds whatever the floating-point division computes.
\<close>

theorem safeDivide_error_iff_zero:
  "(snd (safeDivide fdiv a b) \<noteq> None \<longleftrightarrow> float64_eq_zero b)
   \<and> (float64_eq_zero b \<longrightarrow> fst (safeDivide fdiv a b) = 0)
   \<and> (\<not> float64_eq_zero b \<longrightarrow> snd (safeDivide fdiv a b) = None)"
  by (simp add: safeDivide_def)

theorem safeDivide_error_iff_zero_witness:
  "float64_eq_zero 0 \<and> snd (safeDivide (\<lambda>x y. x) 10 0) \<noteq> None
   \<and> fst (safeDivide (\<lambda>x y. x) 10 0) = 0
   \<and> \<not> float64_eq_zero 0x4000000000000000
   \<and> snd (safeDivide (\<lambda>x y. x) 10 0x4000000000000000) = None"
  using safeDivide_error_iff_zero [of "\<lambda>x y. x" 10 0]
    safeDivide_error_iff_zero [of "\<lambda>x y. x" 10 "0x4000000000000000"]
  by (simp add: float64_eq_zero_def)

subsection \<open>The division identity\<close>

lemma quo_mult_plus_rem: "quo a b * b + rem a b = a"
proof -
  have "quo a b * b + rem a b
      = word_of_int (sint a sdiv sint b * sint b + sint a smod sint b)"
    by (simp add: quo_def rem_def)
  then show ?thesis
    by (simp add: sdiv_mult_smod_eq)
qed

lemma sint_rem:
  fixes a b :: int64
  assumes "b \<noteq> 0"
  shows "sint (rem a b) = sint a smod sint b"
proof -
  from assms have nz: "sint b \<noteq> 0"
    by (simp add: signed_eq_0_iff)
  have "\<bar>sint b\<bar> \<le> 2 ^ 63"
    using sint_lt [of b] sint_ge [of b] by simp
  with smod_int_range [OF nz, of "sint a"]
  have "- (2 ^ 63) \<le> sint a smod sint b" and "sint a smod sint b < 2 ^ 63"
    by simp_all
  then show ?thesis
    by (simp add: rem_def sint_sbintrunc' signed_take_bit_int_eq_self)
qed

lemma abs_rem_less:
  fixes a b :: int64
  assumes "b \<noteq> 0"
  shows "\<bar>sint (rem a b)\<bar> < \<bar>sint b\<bar>"
proof -
  from assms have nz: "sint b \<noteq> 0"
    by (simp add: signed_eq_0_iff)
  from smod_int_range [OF nz, of "sint a"]
  have "\<bar>sint a smod sint b\<bar> < \<bar>sint b\<bar>"
    by auto
  then show ?thesis
    by (simp add: sint_rem [OF assms])
qed

lemma sdiv_in_int64:
  fixes k l :: int
  assumes k: "- (2 ^ 63) \<le> k" "k < 2 ^ 63"
    and ov: "\<not> (k = - (2 ^ 63) \<and> l = - 1)"
  shows "- (2 ^ 63) \<le> k sdiv l \<and> k sdiv l < 2 ^ 63"
proof -
  have lo: "- (2 ^ 63) \<le> k sdiv l"
    using sdiv_int_range [of k l] k by auto
  have hi: "k sdiv l < 2 ^ 63"
  proof (cases "k = - (2 ^ 63)")
    case False
    with k have "\<bar>k\<bar> < 2 ^ 63" by auto
    with sdiv_int_range [of k l] show ?thesis by auto
  next
    case True
    with ov have l1: "l \<noteq> - 1" by simp
    show ?thesis
    proof (cases "l < 0")
      case False
      then have "k sdiv l \<le> 0"
        using True by (simp add: signed_divide_int_def sgn_if pos_imp_zdiv_nonneg_iff)
      then show ?thesis by simp
    next
      case neg: True
      with l1 have "2 \<le> \<bar>l\<bar>" by auto
      then have "\<bar>k\<bar> div \<bar>l\<bar> \<le> \<bar>k\<bar> div 2"
        by (intro zdiv_mono2) auto
      then show ?thesis
        using True neg by (simp add: signed_divide_int_def sgn_if)
    qed
  qed
  from lo hi show ?thesis ..
qed

lemma sint_quo:
  fixes a b :: int64
  assumes "\<not> (a = - 9223372036854775808 \<and> b = - 1)"
  shows "sint (quo a b) = sint a sdiv sint b"
proof -
  have "\<not> (sint a = - (2 ^ 63) \<and> sint b = - 1)"
  proof
    assume h: "sint a = - (2 ^ 63) \<and> sint b = - 1"
    then have "word_of_int (sint a) = (word_of_int (- (2 ^ 63)) :: int64)"
      and "word_of_int (sint b) = (word_of_int (- 1) :: int64)"
      by simp_all
    then have "a = - 9223372036854775808 \<and> b = - 1"
      by simp
    with assms show False by simp
  qed
  with sdiv_in_int64 [of "sint a" "sint b"] sint_ge [of a] sint_lt [of a]
  have "- (2 ^ 63) \<le> sint a sdiv sint b" and "sint a sdiv sint b < 2 ^ 63"
    by simp_all
  then show ?thesis
    by (simp add: quo_def sint_sbintrunc' signed_take_bit_int_eq_self)
qed

lemma divide_exact:
  fixes a b :: int64
  assumes "b \<noteq> 0" and "\<not> (a = - 9223372036854775808 \<and> b = - 1)"
  shows "sint a = sint (quo a b) * sint b + sint (rem a b)"
  by (simp add: sint_quo [OF assms(2)] sint_rem [OF assms(1)] sdiv_mult_smod_eq)

text \<open>
  C8, as the spec has it: for every dividend \<open>a\<close> and every divisor \<open>b\<close> other than zero
  the result \<open>(q, r)\<close> satisfies \<open>a = q*b + r\<close> with \<open>|r| < |b|\<close>. Of the values of the
  integers it does not: the quotient of the most negative \<open>int\<close> by \<open>-1\<close> wraps around
  to the most negative \<open>int\<close>, the remainder is 0, and \<open>q*b + r\<close> is \<open>2^63\<close>, not \<open>a\<close>.
\<close>

theorem divide_most_negative_by_minus_one:
  "(- 1 :: int64) \<noteq> 0
   \<and> divide (- 9223372036854775808) (- 1) = Inr (- 9223372036854775808, 0)
   \<and> sint (- 9223372036854775808 :: int64)
       \<noteq> sint (- 9223372036854775808 :: int64) * sint (- 1 :: int64) + sint (0 :: int64)"
  by (simp add: divide_def quo_def rem_def signed_modulo_int_def)

text \<open>
  C8, amended. The division in \<open>divide\<close> is not guarded, and \<open>divide\<close> is safe exactly
  when the divisor is not zero. For every dividend \<open>a\<close> and every divisor \<open>b\<close> other than
  zero the result \<open>(q, r)\<close> is defined, \<open>|r| < |b|\<close> holds of the signed values, and
  \<open>a = q*b + r\<close> holds in the wrapping arithmetic of \<open>int\<close>; of the signed values
  \<open>a = q*b + r\<close> holds for every input but the most negative \<open>int\<close> divided by \<open>-1\<close>.
  For \<open>b = 0\<close> the call panics with an integer division by zero, whereas \<open>safeDivide\<close>
  returns an error for a zero divisor.
\<close>

theorem divide_safe_iff_divisor_nonzero:
  "(b \<noteq> 0 \<longrightarrow>
      (\<exists>q r. divide a b = Inr (q, r) \<and> a = q * b + r \<and> \<bar>sint r\<bar> < \<bar>sint b\<bar>
         \<and> (\<not> (a = - 9223372036854775808 \<and> b = - 1)
              \<longrightarrow> sint a = sint q * sint b + sint r)))
   \<and> (b = 0 \<longrightarrow> divide a b = Inl IntegerDivideByZero)
   \<and> (float64_eq_zero y \<longrightarrow> safeDivide fdiv x y = (0, Some (New ''division by zero'')))"
proof (intro conjI impI)
  assume nz: "b \<noteq> 0"
  then have "divide a b = Inr (quo a b, rem a b)"
    by (simp add: divide_def)
  moreover have "a = quo a b * b + rem a b"
    by (simp add: quo_mult_plus_rem)
  moreover have "\<bar>sint (rem a b)\<bar> < \<bar>sint b\<bar>"
    using nz by (rule abs_rem_less)
  moreover have "\<not> (a = - 9223372036854775808 \<and> b = - 1)
      \<longrightarrow> sint a = sint (quo a b) * sint b + sint (rem a b)"
    using nz by (blast intro: divide_exact)
  ultimately show "\<exists>q r. divide a b = Inr (q, r) \<and> a = q * b + r \<and> \<bar>sint r\<bar> < \<bar>sint b\<bar>
      \<and> (\<not> (a = - 9223372036854775808 \<and> b = - 1) \<longrightarrow> sint a = sint q * sint b + sint r)"
    by blast
next
  assume "b = 0"
  then show "divide a b = Inl IntegerDivideByZero"
    by (simp add: divide_def)
next
  assume "float64_eq_zero y"
  then show "safeDivide fdiv x y = (0, Some (New ''division by zero''))"
    by (simp add: safeDivide_def)
qed

theorem divide_safe_iff_divisor_nonzero_witness:
  "(5 :: int64) \<noteq> 0 \<and> \<not> ((17 :: int64) = - 9223372036854775808 \<and> (5 :: int64) = - 1)
   \<and> divide 17 5 = Inr (3, 2) \<and> (17 :: int64) = 3 * 5 + 2
   \<and> \<bar>sint (2 :: int64)\<bar> < \<bar>sint (5 :: int64)\<bar>
   \<and> sint (17 :: int64) = sint (3 :: int64) * sint (5 :: int64) + sint (2 :: int64)
   \<and> divide 17 0 = Inl IntegerDivideByZero
   \<and> float64_eq_zero 0
   \<and> safeDivide (\<lambda>x y. x) 10 0 = (0, Some (New ''division by zero''))"
  using divide_safe_iff_divisor_nonzero [of 5 17 0 "\<lambda>x y. x" 10]
    divide_safe_iff_divisor_nonzero [of 0 17 0 "\<lambda>x y. x" 10]
  by (simp add: divide_def quo_def rem_def signed_modulo_int_def float64_eq_zero_def)

section \<open>Properties of the worker pool\<close>

lemma sent_poolWorker: "sent (poolWorker w jobs) = map fibonacci jobs"
  by (induction jobs) (simp_all add: Let_def)

lemma fibonacci_6: "fibonacci 6 = 8"
  by code_simp

text \<open>
  C3. \<open>fibonacci(6) == 8\<close>, so a worker that is given job 6 sends the result 8 on the
  results channel: alone, and among any other jobs it receives before and after.
\<close>

theorem poolWorker_job_6:
  "fibonacci 6 = 8
   \<and> poolWorker w [6] = [PrintProcessing w 6, SendResult 8, PrintCompleted w 6 8]
   \<and> sent (poolWorker w (before @ 6 # after))
       = map fibonacci before @ 8 # map fibonacci after"
  using fibonacci_6 by (simp add: sent_poolWorker Let_def)

section \<open>Properties of the HTTP server definition\<close>

lemma HTTPServerExamples_mux_eq:
  "HTTPServerExamples_mux =
     Inr [(''/'', homeHandler), (''/api/health'', healthHandler),
          (''/api/users'', usersHandler), (''/api/users/'', userByIDHandler)]"
  by (simp add: HTTPServerExamples_mux_def HandleFunc_def NewServeMux_def and_then_def)

text \<open>
  C7, as the spec has it: the mux has exactly the three routes \<open>/\<close>, \<open>/api/health\<close> and
  \<open>/api/users\<close>. It does not: \<open>/api/users/\<close> is registered as well.
\<close>

theorem routes_not_three:
  "routes HTTPServerExamples_mux \<noteq> {''/'', ''/api/health'', ''/api/users''}"
proof
  assume three: "routes HTTPServerExamples_mux = {''/'', ''/api/health'', ''/api/users''}"
  have "''/api/users/'' \<in> routes HTTPServerExamples_mux"
    by (simp add: HTTPServerExamples_mux_eq routes_def)
  with three show False by simp
qed

text \<open>
  C7, amended: the four registrations succeed, and the mux has exactly the four routes
  \<open>/\<close>, \<open>/api/health\<close>, \<open>/api/users\<close> and \<open>/api/users/\<close>, each with its own handler.
\<close>

theorem routes_exactly_four:
  "HTTPServerExamples_mux =
     Inr [(''/'', homeHandler), (''/api/health'', healthHandler),
          (''/api/users'', usersHandler), (''/api/users/'', userByIDHandler)]
   \<and> routes HTTPServerExamples_mux = {''/'', ''/api/health'', ''/api/users'', ''/api/users/''}"
  by (simp add: HTTPServerExamples_mux_eq routes_def)

section \<open>Properties of the rate limiter\<close>

lemma index_upd [simp]: "index (m(k \<mapsto> v)) k' = (if k' = k then v else index m k')"
  by (simp add: index_def)

lemma index_empty [simp]: "index Map.empty k = []"
  by (simp add: index_def)







lemma Sub_le_Minute: "Sub now t \<le> Minute \<longleftrightarrow> now - t \<le> Minute"
  by (simp add: Sub_def Minute_def min_def max_def)









section \<open>Properties of the menu\<close>

lemma stdout_Println [simp]: "stdout (Println x c) = stdout c @ [x]"
  by (simp add: Println_def)

lemma stdin_Println [simp]: "stdin (Println x c) = stdin c"
  by (simp add: Println_def)

lemma stdout_ReadString [simp]: "stdout (snd (ReadString c)) = stdout c"
  by (simp add: ReadString_def split: list.splits)

lemma stdout_getUserInput [simp]:
  "stdout (snd (getUserInput T p c)) = stdout c @ [Prompt p]"
  by (simp add: getUserInput_def split_beta)

lemma stdout_run: "\<exists>qs. stdout (run T m c) = stdout c @ Module m # qs \<and> modules_run qs = []"
  by (cases m) simp_all

lemma modules_run_append [simp]: "modules_run (xs @ ys) = modules_run xs @ modules_run ys"
  by (induction xs rule: modules_run.induct) simp_all

lemma modules_run_run [simp]: "modules_run (stdout (run T m c)) = modules_run (stdout c) @ [m]"
  using stdout_run [of T m c] by auto

lemma stdout_executeChoice: "\<exists>xs. stdout (executeChoice T choice c) = stdout c @ xs"
  using stdout_run [of T _ "Println BlankLine c"]
  by (simp add: executeChoice_def Let_def)

lemma stdout_iteration: "\<exists>xs. stdout (fst (iteration T c)) = stdout c @ Menu # xs"
proof -
  obtain choice c1 where g: "getUserInput T ''Enter your choice (1-7, or 0 to exit): '' (Println Menu c) = (choice, c1)"
    by (cases "getUserInput T ''Enter your choice (1-7, or 0 to exit): '' (Println Menu c)")
  then have c1: "stdout c1 = stdout c @ [Menu, Prompt ''Enter your choice (1-7, or 0 to exit): '']"
    using stdout_getUserInput [of T "''Enter your choice (1-7, or 0 to exit): ''" "Println Menu c"] by simp
  obtain xs where xs: "stdout (executeChoice T choice c1) = stdout c1 @ xs"
    using stdout_executeChoice by blast
  show ?thesis
    using g c1 xs by (simp add: iteration_def Let_def split_beta)
qed

lemma stdout_menu_loop: "\<exists>xs. stdout (fst (menu_loop T n c)) = stdout c @ xs"
proof (induction n arbitrary: c)
  case 0
  show ?case by simp
next
  case (Suc n)
  obtain c' left where it: "iteration T c = (c', left)"
    by (cases "iteration T c")
  obtain xs where xs: "stdout c' = stdout c @ Menu # xs"
    using stdout_iteration [of T c] it by auto
  show ?case
  proof (cases left)
    case True
    with it xs show ?thesis by simp
  next
    case False
    from Suc.IH [of c'] obtain ys where "stdout (fst (menu_loop T n c')) = stdout c' @ ys"
      by blast
    with it xs False show ?thesis by simp
  qed
qed

lemma stdout_menu_loop_Suc: "\<exists>xs. stdout (fst (menu_loop T (Suc n) c)) = stdout c @ Menu # xs"
proof -
  obtain c' left where it: "iteration T c = (c', left)"
    by (cases "iteration T c")
  obtain xs where xs: "stdout c' = stdout c @ Menu # xs"
    using stdout_iteration [of T c] it by auto
  obtain ys where "stdout (fst (menu_loop T n c')) = stdout c' @ ys"
    using stdout_menu_loop by blast
  with it xs show ?thesis by (cases left) simp_all
qed

lemma iteration_not_zero:
  assumes "getUserInput T ''Enter your choice (1-7, or 0 to exit): '' (Println Menu c) = (choice, c1)"
    and "choice \<noteq> ''0''"
  shows "iteration T c = (snd (ReadString (Println PressEnter (executeChoice T choice c1))), False)"
  using assms by (simp add: iteration_def Let_def split_beta)

lemma modules_run_iteration:
  assumes g: "getUserInput T ''Enter your choice (1-7, or 0 to exit): '' (Println Menu c) = (choice, c1)"
    and nz: "choice \<noteq> ''0''"
    and ex: "modules_run (stdout (executeChoice T choice c1)) = modules_run (stdout c1) @ ms"
  shows "modules_run (stdout (fst (iteration T c))) = modules_run (stdout c) @ ms"
proof -
  have "stdout c1 = stdout c @ [Menu, Prompt ''Enter your choice (1-7, or 0 to exit): '']"
    using g stdout_getUserInput [of T "''Enter your choice (1-7, or 0 to exit): ''" "Println Menu c"]
    by simp
  then have "modules_run (stdout c1) = modules_run (stdout c)"
    by simp
  with ex show ?thesis
    by (simp add: iteration_not_zero [OF g nz])
qed

lemma modules_run_executeChoice:
  "modules_run (stdout (executeChoice T choice c1)) =
     modules_run (stdout c1) @
       (if choice = ''1'' then [runBasicSyntax]
        else if choice = ''2'' then [runControlStructures]
        else if choice = ''3'' then [runFunctions]
        else if choice = ''4'' then [runStructsInterfaces]
        else if choice = ''5'' then [runBackendConcepts]
        else if choice = ''6'' then [runConcurrency]
        else if choice = ''7'' then [runAllExamples]
        else [])"
  by (simp add: executeChoice_def Let_def)

text \<open>
  C5. For every string \<open>choice\<close> that \<open>getUserInput\<close> returns to the menu loop: the
  strings \<open>"1"\<close> to \<open>"7"\<close> make \<open>executeChoice\<close>, and with it the iteration of the loop
  that read the string, run the corresponding module and no other; the string \<open>"0"\<close>
  ends the loop with no module run; every other string makes the iteration print the
  invalid-choice message and run no module. For every string but \<open>"0"\<close> the iteration
  is the call of \<open>executeChoice\<close> followed by the wait for Enter, the loop goes on, and
  its next iteration (when there is one) starts by displaying the menu.
\<close>

theorem menu_dispatch:
  assumes g: "getUserInput T ''Enter your choice (1-7, or 0 to exit): '' (Println Menu c) = (choice, c1)"
  shows "(choice = ''1'' \<longrightarrow>
            modules_run (stdout (executeChoice T choice c1)) = modules_run (stdout c1) @ [runBasicSyntax]
          \<and> modules_run (stdout (fst (iteration T c))) = modules_run (stdout c) @ [runBasicSyntax])
    \<and> (choice = ''2'' \<longrightarrow>
            modules_run (stdout (executeChoice T choice c1)) = modules_run (stdout c1) @ [runControlStructures]
          \<and> modules_run (stdout (fst (iteration T c))) = modules_run (stdout c) @ [runControlStructures])
    \<and> (choice = ''3'' \<longrightarrow>
            modules_run (stdout (executeChoice T choice c1)) = modules_run (stdout c1) @ [runFunctions]
          \<and> modules_run (stdout (fst (iteration T c))) = modules_run (stdout c) @ [runFunctions])
    \<and> (choice = ''4'' \<longrightarrow>
            modules_run (stdout (executeChoice T choice c1)) = modules_run (stdout c1) @ [runStructsInterfaces]
          \<and> modules_run (stdout (fst (iteration T c))) = modules_run (stdout c) @ [runStructsInterfaces])
    \<and> (choice = ''5'' \<longrightarrow>
            modules_run (stdout (executeChoice T choice c1)) = modules_run (stdout c1) @ [runBackendConcepts]
          \<and> modules_run (stdout (fst (iteration T c))) = modules_run (stdout c) @ [runBackendConcepts])
    \<and> (choice = ''6'' \<longrightarrow>
            modules_run (stdout (executeChoice T choice c1)) = modules_run (stdout c1) @ [runConcurrency]
          \<and> modules_run (stdout (fst (iteration T c))) = modules_run (stdout c) @ [runConcurrency])
    \<and> (choice = ''7'' \<longrightarrow>
            modules_run (stdout (executeChoice T choice c1)) = modules_run (stdout c1) @ [runAllExamples]
          \<and> modules_run (stdout (fst (iteration T c))) = modules_run (stdout c) @ [runAllExamples])
    \<and> (choice \<noteq> ''0'' \<longrightarrow>
            iteration T c = (snd (ReadString (Println PressEnter (executeChoice T choice c1))), False)
          \<and> menu_loop T (Suc (Suc n)) c = menu_loop T (Suc n) (fst (iteration T c))
          \<and> (\<exists>xs. stdout (fst (menu_loop T (Suc (Suc n)) c)) = stdout (fst (iteration T c)) @ Menu # xs))
    \<and> (choice = ''0'' \<longrightarrow> iteration T c = (Println Goodbye c1, True)
          \<and> menu_loop T (Suc n) c = (Println Goodbye c1, True)
          \<and> modules_run (stdout (fst (iteration T c))) = modules_run (stdout c))
    \<and> (choice \<notin> {''0'', ''1'', ''2'', ''3'', ''4'', ''5'', ''6'', ''7''} \<longrightarrow>
          executeChoice T choice c1 = Println InvalidChoice (Println BlankLine c1)
          \<and> modules_run (stdout (executeChoice T choice c1)) = modules_run (stdout c1)
          \<and> modules_run (stdout (fst (iteration T c))) = modules_run (stdout c)
          \<and> snd (iteration T c) = False
          \<and> stdout (fst (iteration T c))
               = stdout c @ [Menu, Prompt ''Enter your choice (1-7, or 0 to exit): '', BlankLine, InvalidChoice, PressEnter]
          \<and> menu_loop T (Suc (Suc n)) c = menu_loop T (Suc n) (fst (iteration T c))
          \<and> (\<exists>xs. stdout (fst (menu_loop T (Suc (Suc n)) c)) = stdout (fst (iteration T c)) @ Menu # xs))"
proof -
  let ?p = "''Enter your choice (1-7, or 0 to exit): ''"
  have c1: "stdout c1 = stdout c @ [Menu, Prompt ?p]"
    using g stdout_getUserInput [of T ?p "Println Menu c"] by simp
  have ex: "modules_run (stdout (executeChoice T choice c1)) = modules_run (stdout c1) @ [m]"
    if "(if choice = ''1'' then [runBasicSyntax]
        else if choice = ''2'' then [runControlStructures]
        else if choice = ''3'' then [runFunctions]
        else if choice = ''4'' then [runStructsInterfaces]
        else if choice = ''5'' then [runBackendConcepts]
        else if choice = ''6'' then [runConcurrency]
        else if choice = ''7'' then [runAllExamples]
        else []) = [m]" for m
    using that modules_run_executeChoice [of T choice c1] by simp
  have both: "modules_run (stdout (executeChoice T choice c1)) = modules_run (stdout c1) @ [m]
      \<and> modules_run (stdout (fst (iteration T c))) = modules_run (stdout c) @ [m]"
    if "choice \<noteq> ''0''" and "modules_run (stdout (executeChoice T choice c1)) = modules_run (stdout c1) @ [m]" for m
    using modules_run_iteration [OF g that] that(2) by simp
  have loop: "menu_loop T (Suc (Suc n)) c = menu_loop T (Suc n) (fst (iteration T c))"
    if "choice \<noteq> ''0''"
    using iteration_not_zero [OF g that]
    by (simp del: menu_loop.simps add: menu_loop.simps(2) [of T "Suc n" c])
  have menu: "\<exists>xs. stdout (fst (menu_loop T (Suc (Suc n)) c)) = stdout (fst (iteration T c)) @ Menu # xs"
    if "choice \<noteq> ''0''"
    using loop [OF that] stdout_menu_loop_Suc [where T = T and n = n and c = "fst (iteration T c)"]
    by simp
  have zero: "iteration T c = (Println Goodbye c1, True)" if "choice = ''0''"
    using g that by (simp add: iteration_def)
  have inv: "executeChoice T choice c1 = Println InvalidChoice (Println BlankLine c1)"
    if "choice \<notin> {''0'', ''1'', ''2'', ''3'', ''4'', ''5'', ''6'', ''7''}"
    using that by (simp add: executeChoice_def)
  show ?thesis
  proof (intro conjI impI)
    assume "choice = ''1''"
    then show "modules_run (stdout (executeChoice T choice c1)) = modules_run (stdout c1) @ [runBasicSyntax]"
      and "modules_run (stdout (fst (iteration T c))) = modules_run (stdout c) @ [runBasicSyntax]"
      using both [of runBasicSyntax] ex [of runBasicSyntax] by simp_all
  next
    assume "choice = ''2''"
    then show "modules_run (stdout (executeChoice T choice c1)) = modules_run (stdout c1) @ [runControlStructures]"
      and "modules_run (stdout (fst (iteration T c))) = modules_run (stdout c) @ [runControlStructures]"
      using both [of runControlStructures] ex [of runControlStructures] by simp_all
  next
    assume "choice = ''3''"
    then show "modules_run (stdout (executeChoice T choice c1)) = modules_run (stdout c1) @ [runFunctions]"
      and "modules_run (stdout (fst (iteration T c))) = modules_run (stdout c) @ [runFunctions]"
      using both [of runFunctions] ex [of runFunctions] by simp_all
  next
    assume "choice = ''4''"
    then show "modules_run (stdout (executeChoice T choice c1)) = modules_run (stdout c1) @ [runStructsInterfaces]"
      and "modules_run (stdout (fst (iteration T c))) = modules_run (stdout c) @ [runStructsInterfaces]"
      using both [of runStructsInterfaces] ex [of runStructsInterfaces] by simp_all
  next
    assume "choice = ''5''"
    then show "modules_run (stdout (executeChoice T choice c1)) = modules_run (stdout c1) @ [runBackendConcepts]"
      and "modules_run (stdout (fst (iteration T c))) = modules_run (stdout c) @ [runBackendConcepts]"
      using both [of runBackendConcepts] ex [of runBackendConcepts] by simp_all
  next
    assume "choice = ''6''"
    then show "modules_run (stdout (executeChoice T choice c1)) = modules_run (stdout c1) @ [runConcurrency]"
      and "modules_run (stdout (fst (iteration T c))) = modules_run (stdout c) @ [runConcurrency]"
      using both [of runConcurrency] ex [of runConcurrency] by simp_all
  next
    assume "choice = ''7''"
    then show "modules_run (stdout (executeChoice T choice c1)) = modules_run (stdout c1) @ [runAllExamples]"
      and "modules_run (stdout (fst (iteration T c))) = modules_run (stdout c) @ [runAllExamples]"
      using both [of runAllExamples] ex [of runAllExamples] by simp_all
  next
    assume nz: "choice \<noteq> ''0''"
    show "iteration T c = (snd (ReadString (Println PressEnter (executeChoice T choice c1))), False)"
      using g nz by (rule iteration_not_zero)
    show "menu_loop T (Suc (Suc n)) c = menu_loop T (Suc n) (fst (iteration T c))"
      using nz by (rule loop)
    show "\<exists>xs. stdout (fst (menu_loop T (Suc (Suc n)) c)) = stdout (fst (iteration T c)) @ Menu # xs"
      using nz by (rule menu)
  next
    assume z: "choice = ''0''"
    then show "iteration T c = (Println Goodbye c1, True)" by (rule zero)
    then show "menu_loop T (Suc n) c = (Println Goodbye c1, True)" by simp
    show "modules_run (stdout (fst (iteration T c))) = modules_run (stdout c)"
      using zero [OF z] c1 by simp
  next
    assume i: "choice \<notin> {''0'', ''1'', ''2'', ''3'', ''4'', ''5'', ''6'', ''7''}"
    then have nz: "choice \<noteq> ''0''" by simp
    show e: "executeChoice T choice c1 = Println InvalidChoice (Println BlankLine c1)"
      using i by (rule inv)
    then show m: "modules_run (stdout (executeChoice T choice c1)) = modules_run (stdout c1)"
      by simp
    show "modules_run (stdout (fst (iteration T c))) = modules_run (stdout c)"
      using modules_run_iteration [OF g nz, of "[]"] m by simp
    show "snd (iteration T c) = False"
      using iteration_not_zero [OF g nz] by simp
    show "stdout (fst (iteration T c))
               = stdout c @ [Menu, Prompt ''Enter your choice (1-7, or 0 to exit): '', BlankLine, InvalidChoice, PressEnter]"
      using iteration_not_zero [OF g nz] e c1 by simp
    show "menu_loop T (Suc (Suc n)) c = menu_loop T (Suc n) (fst (iteration T c))"
      using nz by (rule loop)
    show "\<exists>xs. stdout (fst (menu_loop T (Suc (Suc n)) c)) = stdout (fst (iteration T c)) @ Menu # xs"
      using nz by (rule menu)
  qed
qed

theorem menu_dispatch_witness:
  "getUserInput (takeWhile (\<lambda>ch. ch \<noteq> CHR 0x0A)) ''Enter your choice (1-7, or 0 to exit): ''
      (Println Menu \<lparr>stdin = [''3'' @ [CHR 0x0A], [CHR 0x0A]], stdout = [Welcome]\<rparr>)
    = (''3'', \<lparr>stdin = [[CHR 0x0A]],
               stdout = [Welcome, Menu, Prompt ''Enter your choice (1-7, or 0 to exit): '']\<rparr>)
   \<and> map (\<lambda>choice. modules_run (stdout (executeChoice (takeWhile (\<lambda>ch. ch \<noteq> CHR 0x0A)) choice
         \<lparr>stdin = [[CHR 0x0A]],
          stdout = [Welcome, Menu, Prompt ''Enter your choice (1-7, or 0 to exit): '']\<rparr>)))
       [''1'', ''2'', ''3'', ''4'', ''5'', ''6'', ''7'']
       = [[runBasicSyntax], [runControlStructures], [runFunctions], [runStructsInterfaces],
          [runBackendConcepts], [runConcurrency], [runAllExamples]]
   \<and> map (\<lambda>choice. modules_run (stdout (fst (iteration (takeWhile (\<lambda>ch. ch \<noteq> CHR 0x0A))
         \<lparr>stdin = [choice @ [CHR 0x0A], [CHR 0x0A]], stdout = [Welcome]\<rparr>))))
       [''1'', ''2'', ''3'', ''4'', ''5'', ''6'', ''7'']
       = [[runBasicSyntax], [runControlStructures], [runFunctions], [runStructsInterfaces],
          [runBackendConcepts], [runConcurrency], [runAllExamples]]
   \<and> menu_loop (takeWhile (\<lambda>ch. ch \<noteq> CHR 0x0A)) (Suc 0)
         \<lparr>stdin = [''0'' @ [CHR 0x0A]], stdout = [Welcome]\<rparr>
       = (\<lparr>stdin = [],
           stdout = [Welcome, Menu, Prompt ''Enter your choice (1-7, or 0 to exit): '', Goodbye]\<rparr>,
          True)
   \<and> ''8'' \<notin> {''0'', ''1'', ''2'', ''3'', ''4'', ''5'', ''6'', ''7''}
   \<and> stdout (fst (iteration (takeWhile (\<lambda>ch. ch \<noteq> CHR 0x0A))
         \<lparr>stdin = [''8'' @ [CHR 0x0A], [CHR 0x0A]], stdout = [Welcome]\<rparr>))
       = [Welcome, Menu, Prompt ''Enter your choice (1-7, or 0 to exit): '', BlankLine,
          InvalidChoice, PressEnter]"
proof -
  let ?T = "takeWhile (\<lambda>ch. ch \<noteq> CHR 0x0A)"
  let ?p = "''Enter your choice (1-7, or 0 to exit): ''"
  let ?c1 = "\<lparr>stdin = [[CHR 0x0A]], stdout = [Welcome, Menu, Prompt ?p]\<rparr>"
  have h: "getUserInput ?T ?p
      (Println Menu \<lparr>stdin = [[d, CHR 0x0A], [CHR 0x0A]], stdout = [Welcome]\<rparr>) = ([d], ?c1)"
    if "d \<noteq> CHR 0x0A" for d
    using that by (simp add: getUserInput_def ReadString_def Println_def)
  have h0: "getUserInput ?T ?p
      (Println Menu \<lparr>stdin = [''0'' @ [CHR 0x0A]], stdout = [Welcome]\<rparr>)
    = (''0'', \<lparr>stdin = [], stdout = [Welcome, Menu, Prompt ?p]\<rparr>)"
    by (simp add: getUserInput_def ReadString_def Println_def)
  have h1: "getUserInput ?T ?p
      (Println Menu \<lparr>stdin = [''1'' @ [CHR 0x0A], [CHR 0x0A]], stdout = [Welcome]\<rparr>) = (''1'', ?c1)"
    using h [of "CHR ''1''"] by simp
  have h2: "getUserInput ?T ?p
      (Println Menu \<lparr>stdin = [''2'' @ [CHR 0x0A], [CHR 0x0A]], stdout = [Welcome]\<rparr>) = (''2'', ?c1)"
    using h [of "CHR ''2''"] by simp
  have h3: "getUserInput ?T ?p
      (Println Menu \<lparr>stdin = [''3'' @ [CHR 0x0A], [CHR 0x0A]], stdout = [Welcome]\<rparr>) = (''3'', ?c1)"
    using h [of "CHR ''3''"] by simp
  have h4: "getUserInput ?T ?p
      (Println Menu \<lparr>stdin = [''4'' @ [CHR 0x0A], [CHR 0x0A]], stdout = [Welcome]\<rparr>) = (''4'', ?c1)"
    using h [of "CHR ''4''"] by simp
  have h5: "getUserInput ?T ?p
      (Println Menu \<lparr>stdin = [''5'' @ [CHR 0x0A], [CHR 0x0A]], stdout = [Welcome]\<rparr>) = (''5'', ?c1)"
    using h [of "CHR ''5''"] by simp
  have h6: "getUserInput ?T ?p
      (Println Menu \<lparr>stdin = [''6'' @ [CHR 0x0A], [CHR 0x0A]], stdout = [Welcome]\<rparr>) = (''6'', ?c1)"
    using h [of "CHR ''6''"] by simp
  have h7: "getUserInput ?T ?p
      (Println Menu \<lparr>stdin = [''7'' @ [CHR 0x0A], [CHR 0x0A]], stdout = [Welcome]\<rparr>) = (''7'', ?c1)"
    using h [of "CHR ''7''"] by simp
  have h8: "getUserInput ?T ?p
      (Println Menu \<lparr>stdin = [''8'' @ [CHR 0x0A], [CHR 0x0A]], stdout = [Welcome]\<rparr>) = (''8'', ?c1)"
    using h [of "CHR ''8''"] by simp
  from menu_dispatch [OF h1, of 0] menu_dispatch [OF h2, of 0] menu_dispatch [OF h3, of 0]
    menu_dispatch [OF h4, of 0] menu_dispatch [OF h5, of 0] menu_dispatch [OF h6, of 0]
    menu_dispatch [OF h7, of 0] menu_dispatch [OF h0, of 0] menu_dispatch [OF h8, of 0] h3
  show ?thesis
    by (simp add: Println_def)
qed

section \<open>Properties of the counter behind the mutex\<close>

subsection \<open>Loop variables stay small\<close>

lemma sint_small: "unat w \<le> 1000 \<Longrightarrow> sint w = int (unat w)" for w :: "64 word"
proof -
  assume "unat w \<le> 1000"
  then have "uint w \<le> 1000" using uint_nat [of w] by linarith
  then have upper: "uint w < 2 ^ 63" by simp
  have "- (2 ^ 63) \<le> (0 :: int)" by simp
  also have "0 \<le> uint w" by simp
  finally have "- (2 ^ 63) \<le> uint w" .
  with upper have "signed_take_bit 63 (uint w) = uint w"
    by (simp only: signed_take_bit_int_eq_self)
  then have "sint w = uint w" by (simp add: sint_uint)
  then show ?thesis by (simp only: uint_nat)
qed

lemma sless_1000: "unat w \<le> 1000 \<Longrightarrow> w <s 1000 \<longleftrightarrow> unat w < 1000" for w :: "64 word"
proof -
  assume "unat w \<le> 1000"
  then have "sint w = int (unat w)" by (rule sint_small)
  moreover have "sint (1000 :: 64 word) = 1000" by simp
  ultimately have "w <s 1000 \<longleftrightarrow> int (unat w) < 1000"
    by (simp only: word_sless_alt)
  then show ?thesis by linarith
qed

lemma sless_5: "unat w \<le> 5 \<Longrightarrow> w <s 5 \<longleftrightarrow> unat w < 5" for w :: "64 word"
proof -
  assume "unat w \<le> 5"
  then have "sint w = int (unat w)" by (intro sint_small) simp
  moreover have "sint (5 :: 64 word) = 5" by simp
  ultimately have "w <s 5 \<longleftrightarrow> int (unat w) < 5"
    by (simp only: word_sless_alt)
  then show ?thesis by linarith
qed

lemma unat_succ: "unat w \<le> 1000 \<Longrightarrow> unat (w + 1) = unat w + 1" for w :: "64 word"
  by (simp add: unat_word_ariths)

lemma sum_list_map_update:
  fixes f :: "'a \<Rightarrow> nat"
  assumes "k < length xs" and "f y = f (xs ! k) + d"
  shows "sum_list (map f (xs[k := y])) = sum_list (map f xs) + d"
  using assms
proof (induction xs arbitrary: k)
  case Nil
  then show ?case by simp
next
  case (Cons x xs)
  then show ?case by (cases k) simp_all
qed

subsection \<open>The invariant holds along every run\<close>

text \<open>
  A step of goroutine \<open>k\<close> that adds \<open>d\<close> to the counter and to the goroutine's count of
  increments keeps the invariant, provided the goroutine enters the critical section
  only when the mutex is free and changes the counter only inside it.
\<close>

lemma invariant_goroutine_step:
  assumes inv: "invariant s"
    and k: "k < length (goroutines s)"
    and gs': "goroutines s' = (goroutines s)[k := g']"
    and main: "main_pc s' = main_pc s" "main_i s' = main_i s"
    and incr: "increments g' = increments (goroutines s ! k) + d"
    and c': "counter s' = counter s + of_nat d"
    and ok: "goroutine_ok (counter s') g'"
    and same: "d \<noteq> 0 \<longrightarrow> in_critical (goroutines s ! k)"
    and enter: "in_critical g' \<longrightarrow> in_critical (goroutines s ! k) \<or> \<not> mu s"
    and m': "mu s' = (if in_critical g' then True
                      else if in_critical (goroutines s ! k) then False else mu s)"
  shows "invariant s'"
proof -
  let ?gs = "goroutines s"
  from inv have sum: "counter s = of_nat (sum_list (map increments ?gs))"
    and oks: "\<And>j. j < length ?gs \<Longrightarrow> goroutine_ok (counter s) (?gs ! j)"
    and excl: "\<And>j j'. j < length ?gs \<Longrightarrow> j' < length ?gs \<Longrightarrow>
           in_critical (?gs ! j) \<Longrightarrow> in_critical (?gs ! j') \<Longrightarrow> j = j'"
    and held: "mu s \<longleftrightarrow> (\<exists>j < length ?gs. in_critical (?gs ! j))"
    and len: "length ?gs = unat (main_i s)" "unat (main_i s) \<le> 5"
      "main_pc s \<noteq> ForGo \<longrightarrow> unat (main_i s) = 5"
    by (auto simp add: invariant_def)
  have nth: "goroutines s' ! j = (if j = k then g' else ?gs ! j)" if "j < length ?gs" for j
    using that by (simp add: gs' nth_list_update)
  have length: "length (goroutines s') = length ?gs"
    by (simp add: gs')
  have 1: "counter s' = of_nat (sum_list (map increments (goroutines s')))"
    using sum sum_list_map_update [OF k incr] by (simp add: c' gs')
  have 2: "goroutine_ok (counter s') (goroutines s' ! j)" if j: "j < length (goroutines s')" for j
  proof (cases "j = k")
    case True
    with j ok show ?thesis by (simp add: length nth)
  next
    case False
    from j have j': "j < length ?gs" by (simp add: length)
    show ?thesis
    proof (cases "d = 0")
      case True
      with oks [OF j'] False j' show ?thesis by (simp add: nth c')
    next
      case d: False
      with same have "in_critical (?gs ! k)" by simp
      with excl [OF j' k] False have "\<not> in_critical (?gs ! j)" by blast
      then have "pc (?gs ! j) \<noteq> CounterStore" by (simp add: in_critical_def)
      with oks [OF j'] False j' show ?thesis by (simp add: nth goroutine_ok_def)
    qed
  qed
  have 3: "j = j'" if j: "j < length (goroutines s')" and j': "j' < length (goroutines s')"
    and cr: "in_critical (goroutines s' ! j)" "in_critical (goroutines s' ! j')" for j j'
  proof (rule ccontr)
    assume ne: "j \<noteq> j'"
    from j j' have lj: "j < length ?gs" and lj': "j' < length ?gs" by (simp_all add: length)
    have other: False if o: "i \<noteq> k" "i < length ?gs" "in_critical (?gs ! i)"
      and new: "in_critical g'" for i
    proof -
      from enter new have "in_critical (?gs ! k) \<or> \<not> mu s" by simp
      then show False
      proof
        assume "in_critical (?gs ! k)"
        with excl [OF o(2) k o(3)] o(1) show False by simp
      next
        assume "\<not> mu s"
        with held o show False by blast
      qed
    qed
    show False
    proof (cases "j = k")
      case True
      with ne have "j' \<noteq> k" by simp
      with cr lj lj' True other [of j'] show False by (simp add: nth)
    next
      case False
      show False
      proof (cases "j' = k")
        case True
        with cr lj lj' False other [of j] show False by (simp add: nth)
      next
        case j'k: False
        with cr lj lj' False excl [OF lj lj'] ne show False by (simp add: nth)
      qed
    qed
  qed
  have 4: "mu s' \<longleftrightarrow> (\<exists>j < length (goroutines s'). in_critical (goroutines s' ! j))"
  proof (cases "in_critical g'")
    case True
    with k have "in_critical (goroutines s' ! k)" by (simp add: nth)
    with k True show ?thesis by (auto simp add: m' length)
  next
    case new: False
    show ?thesis
    proof (cases "in_critical (?gs ! k)")
      case True
      have "\<not> in_critical (goroutines s' ! j)" if "j < length ?gs" for j
      proof (cases "j = k")
        case True
        with new that show ?thesis by (simp add: nth)
      next
        case False
        with excl [OF that k] True have "\<not> in_critical (?gs ! j)" by blast
        with False that show ?thesis by (simp add: nth)
      qed
      with new True show ?thesis by (simp add: m' length)
    next
      case False
      have "in_critical (goroutines s' ! j) \<longleftrightarrow> in_critical (?gs ! j)" if "j < length ?gs" for j
        using that new False by (simp add: nth)
      with new False held show ?thesis by (auto simp add: m' length)
    qed
  qed
  from 1 2 3 4 len show ?thesis
    unfolding invariant_def by (simp add: length main)
qed

lemma invariant_goroutine_ok:
  "invariant s \<Longrightarrow> j < length (goroutines s) \<Longrightarrow> goroutine_ok (counter s) (goroutines s ! j)"
  unfolding invariant_def by blast

lemma invariant_mu:
  "invariant s \<Longrightarrow> j < length (goroutines s) \<Longrightarrow> in_critical (goroutines s ! j) \<Longrightarrow> mu s"
  unfolding invariant_def by blast

lemma invariant_increment:
  assumes inv: "invariant s" and st: "increment k s = Some s'"
  shows "invariant s'"
proof -
  let ?g = "goroutines s ! k"
  from st have k: "k < length (goroutines s)"
    by (simp add: increment_def split: if_splits)
  from inv k have ok: "goroutine_ok (counter s) ?g"
    by (rule invariant_goroutine_ok)
  then have i: "unat (loop_i ?g) \<le> 1000"
    by (simp add: goroutine_ok_def)
  show ?thesis
  proof (cases "pc ?g")
    case ForTest
    with st k have s': "s' = s\<lparr>goroutines :=
        (goroutines s)[k := ?g\<lparr>pc := (if loop_i ?g <s 1000 then MuLock else Return)\<rparr>]\<rparr>"
      by (simp add: increment_def Let_def)
    show ?thesis
      using ok i ForTest
      by (intro invariant_goroutine_step [OF inv k, where d = 0])
        (auto simp add: s' increments_def goroutine_ok_def in_critical_def sless_1000
          split: if_splits)
  next
    case MuLock
    with st k have free: "\<not> mu s"
      and s': "s' = s\<lparr>mu := True, goroutines := (goroutines s)[k := ?g\<lparr>pc := CounterLoad\<rparr>]\<rparr>"
      by (simp_all add: increment_def Let_def split: if_splits)
    show ?thesis
      using ok free MuLock
      by (intro invariant_goroutine_step [OF inv k, where d = 0])
        (auto simp add: s' increments_def goroutine_ok_def in_critical_def)
  next
    case CounterLoad
    with st k have s': "s' = s\<lparr>goroutines :=
        (goroutines s)[k := ?g\<lparr>reg := counter s, pc := CounterStore\<rparr>]\<rparr>"
      by (simp add: increment_def Let_def)
    from CounterLoad have "mu s"
      by (intro invariant_mu [OF inv k]) (simp add: in_critical_def)
    then show ?thesis
      using ok CounterLoad
      by (intro invariant_goroutine_step [OF inv k, where d = 0])
        (auto simp add: s' increments_def goroutine_ok_def in_critical_def)
  next
    case CounterStore
    with st k have s': "s' = s\<lparr>counter := reg ?g + 1,
        goroutines := (goroutines s)[k := ?g\<lparr>pc := MuUnlock\<rparr>]\<rparr>"
      by (simp add: increment_def Let_def)
    from CounterStore have "mu s"
      by (intro invariant_mu [OF inv k]) (simp add: in_critical_def)
    then show ?thesis
      using ok CounterStore
      by (intro invariant_goroutine_step [OF inv k, where d = 1])
        (auto simp add: s' increments_def goroutine_ok_def in_critical_def)
  next
    case MuUnlock
    with st k have s': "s' = s\<lparr>mu := False,
        goroutines := (goroutines s)[k := ?g\<lparr>pc := ForNext\<rparr>]\<rparr>"
      by (simp add: increment_def Let_def split: if_splits)
    show ?thesis
      using ok MuUnlock
      by (intro invariant_goroutine_step [OF inv k, where d = 0])
        (auto simp add: s' increments_def goroutine_ok_def in_critical_def)
  next
    case ForNext
    with st k have s': "s' = s\<lparr>goroutines :=
        (goroutines s)[k := ?g\<lparr>loop_i := loop_i ?g + 1, pc := ForTest\<rparr>]\<rparr>"
      by (simp add: increment_def Let_def)
    from ok ForNext have lt: "unat (loop_i ?g) < 1000"
      by (simp add: goroutine_ok_def)
    show ?thesis
      using ok lt ForNext unat_succ [OF i]
      by (intro invariant_goroutine_step [OF inv k, where d = 0])
        (auto simp add: s' increments_def goroutine_ok_def in_critical_def)
  next
    case Return
    with st k show ?thesis
      by (simp add: increment_def Let_def)
  qed
qed

lemma increments_fresh: "increments \<lparr>pc = ForTest, loop_i = 0, reg = 0\<rparr> = 0"
  by (simp add: increments_def)

lemma invariant_main_pc:
  assumes "invariant s" and "counter s' = counter s" and "mu s' = mu s"
    and "goroutines s' = goroutines s" and "main_i s' = main_i s"
    and "main_pc s' \<noteq> ForGo \<longrightarrow> unat (main_i s) = 5"
  shows "invariant s'"
  using assms(1,6) unfolding invariant_def assms(2-5) by blast

lemma invariant_main_step:
  assumes inv: "invariant s" and st: "main_step s = Some s'"
  shows "invariant s'"
proof (cases "main_pc s")
  case ForGo
  let ?gs = "goroutines s"
  from inv have sum: "counter s = of_nat (sum_list (map increments ?gs))"
    and oks: "\<And>j. j < length ?gs \<Longrightarrow> goroutine_ok (counter s) (?gs ! j)"
    and excl: "\<And>j j'. j < length ?gs \<Longrightarrow> j' < length ?gs \<Longrightarrow>
           in_critical (?gs ! j) \<Longrightarrow> in_critical (?gs ! j') \<Longrightarrow> j = j'"
    and held: "mu s \<longleftrightarrow> (\<exists>j < length ?gs. in_critical (?gs ! j))"
    and len: "length ?gs = unat (main_i s)" and le: "unat (main_i s) \<le> 5"
    by (auto simp add: invariant_def)
  show ?thesis
  proof (cases "main_i s <s 5")
    case True
    let ?new = "\<lparr>pc = ForTest, loop_i = 0, reg = 0\<rparr>"
    from True le have lt: "unat (main_i s) < 5"
      by (simp add: sless_5)
    then have succ: "unat (main_i s + 1) = unat (main_i s) + 1"
      by (intro unat_succ) simp
    from st ForGo True have s': "s' = s\<lparr>goroutines := ?gs @ [?new], main_i := main_i s + 1\<rparr>"
      by (simp add: main_step_def)
    have nth: "goroutines s' ! j = (if j < length ?gs then ?gs ! j else ?new)"
      if "j < length (goroutines s')" for j
      using that by (auto simp add: s' nth_append less_Suc_eq)
    have new: "goroutine_ok c ?new" "\<not> in_critical ?new" for c
      by (simp_all add: goroutine_ok_def in_critical_def)
    have 1: "counter s' = of_nat (sum_list (map increments (goroutines s')))"
      using sum by (simp add: s' increments_fresh)
    have 2: "goroutine_ok (counter s') (goroutines s' ! j)" if "j < length (goroutines s')" for j
      using oks [of j] new(1) [of "counter s"] nth [OF that] by (simp add: s')
    have cr: "j < length ?gs \<and> in_critical (?gs ! j)"
      if "j < length (goroutines s')" "in_critical (goroutines s' ! j)" for j
      using that new(2) nth [OF that(1)] by (cases "j < length ?gs") simp_all
    have 3: "j = j'" if "j < length (goroutines s')" "j' < length (goroutines s')"
      "in_critical (goroutines s' ! j)" "in_critical (goroutines s' ! j')" for j j'
      using cr [OF that(1) that(3)] cr [OF that(2) that(4)] excl by blast
    have 4: "mu s' \<longleftrightarrow> (\<exists>j < length (goroutines s'). in_critical (goroutines s' ! j))"
    proof
      assume "mu s'"
      then have "mu s" by (simp add: s')
      with held obtain j where j: "j < length ?gs" "in_critical (?gs ! j)" by blast
      then have "j < length (goroutines s')" "in_critical (goroutines s' ! j)"
        by (simp_all add: s' nth_append)
      then show "\<exists>j < length (goroutines s'). in_critical (goroutines s' ! j)" by blast
    next
      assume "\<exists>j < length (goroutines s'). in_critical (goroutines s' ! j)"
      with cr held have "mu s" by blast
      then show "mu s'" by (simp add: s')
    qed
    have 5: "length (goroutines s') = unat (main_i s')" "unat (main_i s') \<le> 5"
      "main_pc s' \<noteq> ForGo \<longrightarrow> unat (main_i s') = 5"
      using len lt succ ForGo by (simp_all add: s')
    from 1 2 3 4 5 show ?thesis
      unfolding invariant_def by blast
  next
    case False
    with le have "unat (main_i s) = 5"
      by (simp add: sless_5)
    moreover from st ForGo False have "s' = s\<lparr>main_pc := Sleep\<rparr>"
      by (simp add: main_step_def)
    ultimately show ?thesis
      by (intro invariant_main_pc [OF inv]) simp_all
  qed
next
  case Sleep
  with st have "s' = s\<lparr>main_pc := PrintCounter\<rparr>"
    by (simp add: main_step_def)
  moreover from inv Sleep have "unat (main_i s) = 5"
    unfolding invariant_def by simp
  ultimately show ?thesis
    by (intro invariant_main_pc [OF inv]) simp_all
next
  case PrintCounter
  with st have "s' = s\<lparr>final_counter := final_counter s @ [counter s], main_pc := Exit\<rparr>"
    by (simp add: main_step_def)
  moreover from inv PrintCounter have "unat (main_i s) = 5"
    unfolding invariant_def by simp
  ultimately show ?thesis
    by (intro invariant_main_pc [OF inv]) simp_all
next
  case Exit
  with st show ?thesis
    by (simp add: main_step_def)
qed

lemma invariant_step: "invariant s \<Longrightarrow> step t s = Some s' \<Longrightarrow> invariant s'"
  by (cases t)
    (auto simp add: step_def split: if_splits intro: invariant_main_step invariant_increment)

lemma invariant_interleave:
  "invariant s \<Longrightarrow> interleave sched s = Some s' \<Longrightarrow> invariant s'"
proof (induction sched arbitrary: s)
  case Nil
  then show ?case by simp
next
  case (Cons t sched)
  then show ?case
    by (auto split: option.splits intro: invariant_step)
qed

lemma invariant_initial: "invariant initial"
  by (simp add: invariant_def initial_def)

lemma sum_list_const:
  "list_all (\<lambda>x. f x = c) xs \<Longrightarrow> sum_list (map f xs) = length xs * (c :: nat)"
  by (induction xs) simp_all

lemma returned_increments:
  assumes "interleave sched initial = Some s" and "j < length (goroutines s)"
    and "pc (goroutines s ! j) = Return"
  shows "increments (goroutines s ! j) = 1000"
proof -
  have "invariant s"
    using invariant_initial assms(1) by (rule invariant_interleave)
  then have "goroutine_ok (counter s) (goroutines s ! j)"
    using assms(2) by (rule invariant_goroutine_ok)
  with assms(3) show ?thesis
    by (simp add: goroutine_ok_def increments_def)
qed

subsection \<open>A run that completes\<close>

lemma interleave_append:
  "interleave (ts @ us) s = (case interleave ts s of None \<Rightarrow> None | Some s' \<Rightarrow> interleave us s')"
  by (induction ts arbitrary: s) (simp_all split: option.splits)

lemma sless_of_nat: "m < 1000 \<Longrightarrow> (of_nat m :: int64) <s 1000"
proof -
  assume m: "m < 1000"
  then have "unat (of_nat m :: int64) = m"
    by (simp add: unat_of_nat)
  with m show ?thesis
    by (simp add: sless_1000)
qed

lemma one_iteration:
  assumes k: "k < length (goroutines s)" and free: "\<not> mu s" and running: "main_pc s \<noteq> Exit"
    and g: "goroutines s ! k = \<lparr>pc = ForTest, loop_i = of_nat m, reg = r0\<rparr>"
    and m: "m < 1000"
  shows "interleave (replicate 6 (Goroutine k)) s =
     Some (s\<lparr>counter := counter s + 1, mu := False,
              goroutines := (goroutines s)[k := \<lparr>pc = ForTest, loop_i = of_nat (Suc m), reg = counter s\<rparr>]\<rparr>)"
proof -
  have six: "replicate 6 (Goroutine k) = [Goroutine k, Goroutine k, Goroutine k, Goroutine k, Goroutine k, Goroutine k]"
    by (simp add: numeral_eq_Suc)
  show ?thesis
    unfolding six using k free running sless_of_nat [OF m]
    by (simp add: step_def increment_def g Let_def add.commute)
qed

lemma iterations:
  assumes k: "k < length (goroutines s)" and free: "\<not> mu s" and running: "main_pc s \<noteq> Exit"
    and g: "goroutines s ! k = \<lparr>pc = ForTest, loop_i = of_nat m, reg = r0\<rparr>"
    and m: "m + Suc n \<le> 1000"
  shows "interleave (replicate (6 * Suc n) (Goroutine k)) s =
     Some (s\<lparr>counter := counter s + of_nat (Suc n), mu := False,
              goroutines := (goroutines s)
                [k := \<lparr>pc = ForTest, loop_i = of_nat (m + Suc n), reg = counter s + of_nat n\<rparr>]\<rparr>)"
  using assms
proof (induction n arbitrary: s m r0)
  case 0
  then show ?case
    using one_iteration [of k s m r0] by simp
next
  case (Suc n)
  let ?s1 = "s\<lparr>counter := counter s + 1, mu := False,
              goroutines := (goroutines s)[k := \<lparr>pc = ForTest, loop_i = of_nat (Suc m), reg = counter s\<rparr>]\<rparr>"
  have split: "replicate (6 * Suc (Suc n)) (Goroutine k)
      = replicate 6 (Goroutine k) @ replicate (6 * Suc n) (Goroutine k)"
    by (simp flip: replicate_add)
  have first: "interleave (replicate 6 (Goroutine k)) s = Some ?s1"
    using Suc.prems by (intro one_iteration) simp_all
  have rest: "interleave (replicate (6 * Suc n) (Goroutine k)) ?s1 =
     Some (?s1\<lparr>counter := counter ?s1 + of_nat (Suc n), mu := False,
              goroutines := (goroutines ?s1)
                [k := \<lparr>pc = ForTest, loop_i = of_nat (Suc m + Suc n), reg = counter ?s1 + of_nat n\<rparr>]\<rparr>)"
    using Suc.prems by (intro Suc.IH) simp_all
  show ?case
    unfolding split interleave_append first
    by (simp only: option.case rest) (simp add: ac_simps)
qed

lemma run_goroutine:
  assumes k: "k < length (goroutines s)" and free: "\<not> mu s" and running: "main_pc s \<noteq> Exit"
    and g: "goroutines s ! k = \<lparr>pc = ForTest, loop_i = 0, reg = 0\<rparr>"
  shows "interleave (replicate 6001 (Goroutine k)) s =
     Some (s\<lparr>counter := counter s + 1000, mu := False,
              goroutines := (goroutines s)[k := \<lparr>pc = Return, loop_i = 1000, reg = counter s + 999\<rparr>]\<rparr>)"
proof -
  let ?s1 = "s\<lparr>counter := counter s + of_nat (Suc 999), mu := False,
              goroutines := (goroutines s)
                [k := \<lparr>pc = ForTest, loop_i = of_nat (0 + Suc 999), reg = counter s + of_nat 999\<rparr>]\<rparr>"
  have "replicate (6 * Suc 999 + 1) (Goroutine k)
      = replicate (6 * Suc 999) (Goroutine k) @ [Goroutine k]"
    by (simp only: replicate_add) simp
  then have split: "replicate 6001 (Goroutine k)
      = replicate (6 * Suc 999) (Goroutine k) @ [Goroutine k]"
    by simp
  have loop: "interleave (replicate (6 * Suc 999) (Goroutine k)) s = Some ?s1"
    using assms by (intro iterations) simp_all
  have last: "interleave [Goroutine k] ?s1 =
     Some (s\<lparr>counter := counter s + 1000, mu := False,
              goroutines := (goroutines s)[k := \<lparr>pc = Return, loop_i = 1000, reg = counter s + 999\<rparr>]\<rparr>)"
    using k running by (simp add: step_def increment_def Let_def)
  show ?thesis
    unfolding split interleave_append loop
    by (simp only: option.case last)
qed

lemma main_starts:
  "interleave (replicate 6 MainThread) initial =
     Some \<lparr>counter = 0, mu = False,
           goroutines = replicate 5 \<lparr>pc = ForTest, loop_i = 0, reg = 0\<rparr>,
           main_pc = Sleep, main_i = 5, final_counter = []\<rparr>"
  by (simp add: numeral_eq_Suc initial_def step_def main_step_def word_sless_alt)

lemma interleave_sequential: "interleave sequential initial = Some sequential_end"
proof -
  let ?new = "\<lparr>pc = ForTest, loop_i = 0, reg = 0\<rparr>"
  let ?ret = "\<lambda>r. \<lparr>pc = Return, loop_i = 1000, reg = r\<rparr>"
  let ?st = "\<lambda>c gs. \<lparr>counter = c, mu = False, goroutines = gs,
           main_pc = Sleep, main_i = 5, final_counter = []\<rparr>"
  have 0: "interleave (replicate 6001 (Goroutine 0)) (?st 0 [?new, ?new, ?new, ?new, ?new])
      = Some (?st 1000 [?ret 999, ?new, ?new, ?new, ?new])"
    by (subst run_goroutine) simp_all
  have 1: "interleave (replicate 6001 (Goroutine 1)) (?st 1000 [?ret 999, ?new, ?new, ?new, ?new])
      = Some (?st 2000 [?ret 999, ?ret 1999, ?new, ?new, ?new])"
    by (subst run_goroutine) simp_all
  have 2: "interleave (replicate 6001 (Goroutine 2)) (?st 2000 [?ret 999, ?ret 1999, ?new, ?new, ?new])
      = Some (?st 3000 [?ret 999, ?ret 1999, ?ret 2999, ?new, ?new])"
    by (subst run_goroutine) simp_all
  have 3: "interleave (replicate 6001 (Goroutine 3)) (?st 3000 [?ret 999, ?ret 1999, ?ret 2999, ?new, ?new])
      = Some (?st 4000 [?ret 999, ?ret 1999, ?ret 2999, ?ret 3999, ?new])"
    by (subst run_goroutine) simp_all
  have 4: "interleave (replicate 6001 (Goroutine 4)) (?st 4000 [?ret 999, ?ret 1999, ?ret 2999, ?ret 3999, ?new])
      = Some (?st 5000 [?ret 999, ?ret 1999, ?ret 2999, ?ret 3999, ?ret 4999])"
    by (subst run_goroutine) simp_all
  have start: "interleave (replicate 6 MainThread) initial = Some (?st 0 [?new, ?new, ?new, ?new, ?new])"
    by (simp only: main_starts) (simp add: numeral_eq_Suc)
  have wake: "interleave [MainThread] (?st 5000 [?ret 999, ?ret 1999, ?ret 2999, ?ret 3999, ?ret 4999])
      = Some sequential_end"
    by (simp add: step_def main_step_def sequential_end_def)
  show ?thesis
    unfolding sequential_def
    by (simp only: interleave_append start 0 1 2 3 4 wake option.case concat.simps list.map append_Nil2)
qed

text \<open>
  C4. Five goroutines each increment the shared counter 1000 times under the mutex. In
  every run, whatever the interleaving, if all goroutines have completed their
  increments when \<open>main\<close> is about to read the counter, then the counter is exactly 5000
  and that is the value \<open>main\<close> prints. (A goroutine that has returned has completed its
  increments, by \<open>returned_increments\<close>; the schedule \<open>sequential\<close> is such a run.)
\<close>

theorem mutex_counter_5000:
  assumes run: "interleave sched initial = Some s"
    and read: "main_pc s = PrintCounter"
    and finished: "list_all (\<lambda>g. increments g = 1000) (goroutines s)"
  shows "counter s = 5000
    \<and> step MainThread s = Some (s\<lparr>final_counter := final_counter s @ [5000], main_pc := Exit\<rparr>)"
proof -
  have inv: "invariant s"
    using invariant_initial run by (rule invariant_interleave)
  with read have "length (goroutines s) = 5"
    by (simp add: invariant_def)
  with finished have "sum_list (map increments (goroutines s)) = 5000"
    by (simp add: sum_list_const)
  with inv have "counter s = 5000"
    by (simp add: invariant_def)
  with read show ?thesis
    by (simp add: step_def main_step_def)
qed

theorem mutex_counter_5000_witness:
  "interleave sequential initial = Some sequential_end
   \<and> main_pc sequential_end = PrintCounter
   \<and> list_all (\<lambda>g. increments g = 1000) (goroutines sequential_end)
   \<and> counter sequential_end = 5000
   \<and> step MainThread sequential_end
       = Some (sequential_end\<lparr>final_counter := final_counter sequential_end @ [5000], main_pc := Exit\<rparr>)"
proof -
  have run: "interleave sequential initial = Some sequential_end"
    by (rule interleave_sequential)
  have read: "main_pc sequential_end = PrintCounter"
    by (simp add: sequential_end_def)
  have finished: "list_all (\<lambda>g. increments g = 1000) (goroutines sequential_end)"
    by (simp add: sequential_end_def increments_def)
  from mutex_counter_5000 [OF run read finished] run read finished show ?thesis
    by simp
qed

end
